theory Spec2Isabelle
  imports Main "HOL-Library.AList" "HOL-Library.Multiset"
begin

section \<open>Python values\<close>

text \<open>
  A Python \<open>dict\<close> with string keys keeps its keys in insertion order and holds each key
  once.  It is modelled as an association list; \<open>d[k] = v\<close> is \<^const>\<open>AList.update\<close>
  (the value is replaced in place when \<open>k\<close> is present, the pair is appended otherwise),
  \<open>del d[k]\<close> is \<^const>\<open>AList.delete\<close>, \<open>d[k].append(x)\<close> is \<^const>\<open>AList.map_entry\<close>,
  \<open>k in d\<close> is membership in the list of keys and \<open>d.values()\<close> is \<open>map snd d\<close>.
  A list that really is a Python dict has pairwise distinct keys.
\<close>

type_synonym 'v dict = "(string \<times> 'v) list"

definition wf_dict :: "'v dict \<Rightarrow> bool" where
  "wf_dict d = distinct (map fst d)"

text \<open>
  The values that \<open>json.load\<close> returns and that \<open>item.dict()\<close> and \<open>json.dump\<close> handle:
  \<open>None\<close>, booleans, integers, strings, lists and dicts with string keys.  Numbers with a
  fraction are outside the model.
\<close>

datatype json =
    JNull
  | JBool bool
  | JInt int
  | JStr string
  | JArr "json list"
  | JObj "(string \<times> json) list"

text \<open>The exceptions that the modelled code can raise.\<close>

datatype error =
    AttributeError
  | TypeError
  | KeyError
  | ValidationError
  | IsADirectoryError
  | PermissionError
  | UnicodeDecodeError
  | RecursionError

text \<open>
  \<open>str.lower()\<close> is a function of the Python library on strings, defined on all of
  Unicode.  It is not modelled: every definition below that calls \<open>name.lower()\<close> takes
  it as the parameter \<open>lower\<close>, and nothing is assumed about it, so that a theorem about
  these definitions holds of the code with Python's function for \<open>lower\<close>.

  \<open>ascii_lower\<close> moves each of the letters \<open>A\<close> to \<open>Z\<close> to its small letter and leaves
  every other character.  It is what \<open>str.lower()\<close> returns on a string of ASCII
  characters, and stands for \<open>lower\<close> in the examples, whose names are ASCII.  It is also
  the comparison that the validation of a boolean field makes, which ignores the case of
  the ASCII letters only.
\<close>

definition ascii_lower_char :: "char \<Rightarrow> char" where
  "ascii_lower_char c =
     (case map_of (zip ''ABCDEFGHIJKLMNOPQRSTUVWXYZ'' ''abcdefghijklmnopqrstuvwxyz'') c of
        Some l \<Rightarrow> l
      | None \<Rightarrow> c)"

definition ascii_lower :: "string \<Rightarrow> string" where
  "ascii_lower s = map ascii_lower_char s"

text \<open>Iterating over a value, as a \<open>for\<close> loop or a comprehension does.\<close>

definition py_iter :: "json \<Rightarrow> error + json list" where
  "py_iter v =
     (case v of
        JArr xs \<Rightarrow> Inr xs
      | JObj kvs \<Rightarrow> Inr (map (\<lambda>kv. JStr (fst kv)) kvs)
      | JStr s \<Rightarrow> Inr (map (\<lambda>c. JStr [c]) s)
      | _ \<Rightarrow> Inl TypeError)"

text \<open>Subscripting a value with a string key, \<open>v[k]\<close>.\<close>

definition py_getitem :: "json \<Rightarrow> string \<Rightarrow> error + json" where
  "py_getitem v k =
     (case v of
        JObj kvs \<Rightarrow> (case map_of kvs k of None \<Rightarrow> Inl KeyError | Some x \<Rightarrow> Inr x)
      | _ \<Rightarrow> Inl TypeError)"

section \<open>GroceryItem\<close>

record GroceryItem =
  id' :: string
  name :: string
  aisle :: string
  quantity :: "string option"
  quantity_unit :: "string option"
  checked :: bool

text \<open>
  Validation of the keyword arguments of \<open>GroceryItem(**kwargs)\<close> by pydantic: \<open>id\<close>,
  \<open>name\<close> and \<open>aisle\<close> are required strings, \<open>quantity\<close> and \<open>quantity_unit\<close> are
  strings or \<open>None\<close> and default to \<open>None\<close>, \<open>checked\<close> is a boolean and defaults to
  \<open>False\<close>; for a boolean field the integers 0 and 1 and the usual spellings of yes and
  no, in either case of their letters, are accepted too.  Keys that are not fields are ignored.  Each function returns
  \<open>None\<close> when the field does not validate.
\<close>

definition str_field :: "(string \<times> json) list \<Rightarrow> string \<Rightarrow> string option" where
  "str_field kwargs k = (case map_of kwargs k of Some (JStr s) \<Rightarrow> Some s | _ \<Rightarrow> None)"

definition opt_str_field :: "(string \<times> json) list \<Rightarrow> string \<Rightarrow> string option option" where
  "opt_str_field kwargs k =
     (case map_of kwargs k of
        None \<Rightarrow> Some None
      | Some JNull \<Rightarrow> Some None
      | Some (JStr s) \<Rightarrow> Some (Some s)
      | _ \<Rightarrow> None)"

definition bool_field :: "(string \<times> json) list \<Rightarrow> string \<Rightarrow> bool option" where
  "bool_field kwargs k =
     (case map_of kwargs k of
        None \<Rightarrow> Some False
      | Some (JBool b) \<Rightarrow> Some b
      | Some (JInt i) \<Rightarrow> (if i = 0 then Some False else if i = 1 then Some True else None)
      | Some (JStr s) \<Rightarrow>
          (if ascii_lower s \<in> set [''1'', ''on'', ''t'', ''true'', ''y'', ''yes''] then Some True
           else if ascii_lower s \<in> set [''0'', ''off'', ''f'', ''false'', ''n'', ''no''] then Some False
           else None)
      | _ \<Rightarrow> None)"

definition GroceryItem_init :: "(string \<times> json) list \<Rightarrow> error + GroceryItem" where
  "GroceryItem_init kwargs =
     (case str_field kwargs ''id'' of None \<Rightarrow> Inl ValidationError | Some i \<Rightarrow>
     (case str_field kwargs ''name'' of None \<Rightarrow> Inl ValidationError | Some n \<Rightarrow>
     (case str_field kwargs ''aisle'' of None \<Rightarrow> Inl ValidationError | Some a \<Rightarrow>
     (case opt_str_field kwargs ''quantity'' of None \<Rightarrow> Inl ValidationError | Some q \<Rightarrow>
     (case opt_str_field kwargs ''quantity_unit'' of None \<Rightarrow> Inl ValidationError | Some u \<Rightarrow>
     (case bool_field kwargs ''checked'' of None \<Rightarrow> Inl ValidationError | Some c \<Rightarrow>
        Inr \<lparr>id' = i, name = n, aisle = a, quantity = q, quantity_unit = u, checked = c\<rparr>))))))"

text \<open>\<open>GroceryItem(**item)\<close>: the argument of \<open>**\<close> has to be a mapping.\<close>

definition GroceryItem_of :: "json \<Rightarrow> error + GroceryItem" where
  "GroceryItem_of item = (case item of JObj kwargs \<Rightarrow> GroceryItem_init kwargs | _ \<Rightarrow> Inl TypeError)"

text \<open>\<open>[GroceryItem(**item) for item in items]\<close>, stopping at the first exception.\<close>

fun GroceryItem_list :: "json list \<Rightarrow> error + GroceryItem list" where
  "GroceryItem_list [] = Inr []"
| "GroceryItem_list (item # items) =
     (case GroceryItem_of item of
        Inl e \<Rightarrow> Inl e
      | Inr g \<Rightarrow> (case GroceryItem_list items of Inl e \<Rightarrow> Inl e | Inr gs \<Rightarrow> Inr (g # gs)))"

text \<open>\<open>item.dict()\<close>.\<close>

definition opt_json :: "string option \<Rightarrow> json" where
  "opt_json v = (case v of None \<Rightarrow> JNull | Some s \<Rightarrow> JStr s)"

definition item_dict :: "GroceryItem \<Rightarrow> (string \<times> json) list" where
  "item_dict item =
     [(''id'', JStr (id' item)), (''name'', JStr (name item)), (''aisle'', JStr (aisle item)),
      (''quantity'', opt_json (quantity item)), (''quantity_unit'', opt_json (quantity_unit item)),
      (''checked'', JBool (checked item))]"

section \<open>ListOrganizationAgent\<close>

text \<open>
  The file at the path \<open>self.state_file\<close>, when the path is free or holds a regular file
  that the process may open: it does not exist (\<open>None\<close>), or its bytes are not text in
  the encoding (\<open>Undecodable\<close>), or its text is rejected by the JSON parser (\<open>NotJSON\<close>),
  or its text is JSON nested deeper than the interpreter's recursion limit (\<open>TooDeep\<close>),
  or it is the text of a JSON value (\<open>JSON v\<close>), which \<open>json.load\<close> returns and
  \<open>json.dump\<close> writes.  This is the file of the agent, which \<open>save_state\<close> overwrites.

  What \<open>open(self.state_file, 'r')\<close> meets at the path is more: the path may be a
  directory (\<open>Directory\<close>) or a file that the process may not open (\<open>Forbidden\<close>),
  or else it is free or holds such a file (\<open>Reachable\<close>).
\<close>

datatype document = Undecodable | NotJSON | TooDeep | JSON json

datatype state_path = Directory | Forbidden | Reachable "document option"

record ListOrganizationAgent =
  current_items :: "GroceryItem list dict"
  state_file :: "document option"

definition default_aisles :: "string list" where
  "default_aisles =
     [''Produce'', ''Dairy'', ''Meat'', ''Frozen'', ''Pantry'', ''Canned Goods'', ''Baking'',
      ''Beverages'', ''Snacks'', ''Household'', ''Personal Care'']"

subsection \<open>load_state and save_state\<close>

text \<open>The loop of \<open>load_state\<close> over \<open>state.get('items', {}).items()\<close>.\<close>

fun load_aisles ::
  "GroceryItem list dict \<Rightarrow> (string \<times> json) list \<Rightarrow> error + GroceryItem list dict" where
  "load_aisles items_dict [] = Inr items_dict"
| "load_aisles items_dict ((a, items) # rest) =
     (case py_iter items of
        Inl e \<Rightarrow> Inl e
      | Inr elems \<Rightarrow>
          (case GroceryItem_list elems of
             Inl e \<Rightarrow> Inl e
           | Inr gs \<Rightarrow> load_aisles (AList.update a gs items_dict) rest))"

text \<open>
  \<open>load_state\<close>: of the exceptions of \<open>open\<close> and \<open>json.load\<close> only
  \<open>FileNotFoundError\<close> (no file) and \<open>JSONDecodeError\<close> (text that is not JSON) are
  caught, and give the empty dict; \<open>IsADirectoryError\<close>, \<open>PermissionError\<close>,
  \<open>UnicodeDecodeError\<close> and \<open>RecursionError\<close> leave the function.  On a parsed value,
  \<open>state.get\<close> and \<open>.items()\<close> need dicts and raise \<open>AttributeError\<close> otherwise, and
  what the loop raises leaves the function too.
\<close>

definition load_state :: "state_path \<Rightarrow> error + GroceryItem list dict" where
  "load_state p =
     (case p of
        Directory \<Rightarrow> Inl IsADirectoryError
      | Forbidden \<Rightarrow> Inl PermissionError
      | Reachable file \<Rightarrow>
          (case file of
             None \<Rightarrow> Inr []
           | Some Undecodable \<Rightarrow> Inl UnicodeDecodeError
           | Some NotJSON \<Rightarrow> Inr []
           | Some TooDeep \<Rightarrow> Inl RecursionError
           | Some (JSON state) \<Rightarrow>
               (case state of
                  JObj kvs \<Rightarrow>
                    (case (case map_of kvs ''items'' of None \<Rightarrow> JObj [] | Some v \<Rightarrow> v) of
                       JObj aisles \<Rightarrow> load_aisles [] aisles
                     | _ \<Rightarrow> Inl AttributeError)
                | _ \<Rightarrow> Inl AttributeError)))"

definition state_json :: "GroceryItem list dict \<Rightarrow> json" where
  "state_json items_dict =
     JObj [(''items'', JObj (map (\<lambda>(a, items). (a, JArr (map (\<lambda>item. JObj (item_dict item)) items))) items_dict))]"

text \<open>\<open>save_state\<close> writes the document of the whole state over the agent's file.\<close>

definition save_state :: "ListOrganizationAgent \<Rightarrow> ListOrganizationAgent" where
  "save_state ag = ag\<lparr>state_file := Some (JSON (state_json (current_items ag)))\<rparr>"

subsection \<open>categorize_items\<close>

text \<open>
  The part of \<open>categorize_items\<close> after the call to the language model, as a function of
  the value \<open>categorized_data\<close> parsed from the model's answer.  \<open>uuids\<close> is the stream of
  identifiers that \<open>uuid.uuid4()\<close> hands out and \<open>n\<close> the number already used.

  The loop that builds \<open>new_items\<close>: \<open>'id' not in item_data\<close> followed by the assignment
  or by \<open>**item_data\<close> raises \<open>TypeError\<close> on everything that is not a dict.
\<close>

fun new_items_loop :: "(nat \<Rightarrow> string) \<Rightarrow> nat \<Rightarrow> json list \<Rightarrow> error + GroceryItem list" where
  "new_items_loop uuids n [] = Inr []"
| "new_items_loop uuids n (item_data # rest) =
     (case item_data of
        JObj kwargs \<Rightarrow>
          (let fresh = (''id'' \<notin> set (map fst kwargs));
               kwargs' = (if fresh then AList.update ''id'' (JStr (uuids n)) kwargs else kwargs);
               n' = (if fresh then Suc n else n)
           in case GroceryItem_init kwargs' of
                Inl e \<Rightarrow> Inl e
              | Inr g \<Rightarrow>
                  (case new_items_loop uuids n' rest of Inl e \<Rightarrow> Inl e | Inr gs \<Rightarrow> Inr (g # gs)))
      | _ \<Rightarrow> Inl TypeError)"

text \<open>The set of lower-cased names of the items held in any aisle.\<close>

definition existing_names :: "(string \<Rightarrow> string) \<Rightarrow> GroceryItem list dict \<Rightarrow> string set" where
  "existing_names lower items_dict =
     set (map (\<lambda>item. lower (name item)) (concat (map snd items_dict)))"

definition categorize_items ::
  "(string \<Rightarrow> string) \<Rightarrow> ListOrganizationAgent \<Rightarrow> (nat \<Rightarrow> string) \<Rightarrow> nat \<Rightarrow> json \<Rightarrow> bool
     \<Rightarrow> error + GroceryItem list" where
  "categorize_items lower ag uuids n categorized_data preserve_existing =
     (case py_getitem categorized_data ''items'' of
        Inl e \<Rightarrow> Inl e
      | Inr v \<Rightarrow>
          (case py_iter v of
             Inl e \<Rightarrow> Inl e
           | Inr elems \<Rightarrow>
               (case new_items_loop uuids n elems of
                  Inl e \<Rightarrow> Inl e
                | Inr new_items \<Rightarrow>
                    Inr (if preserve_existing
                         then filter (\<lambda>item. lower (name item) \<notin> existing_names lower (current_items ag))
                                new_items
                         else new_items))))"

subsection \<open>organize_by_aisle\<close>

text \<open>The test of the inner loop: some aisle of \<open>organized\<close> holds an item of the same lower-cased name.\<close>

definition item_exists :: "(string \<Rightarrow> string) \<Rightarrow> GroceryItem list dict \<Rightarrow> GroceryItem \<Rightarrow> bool" where
  "item_exists lower organized item =
     list_ex (\<lambda>aisle_items. list_ex (\<lambda>existing. lower (name existing) = lower (name item)) aisle_items)
       (map snd organized)"

text \<open>The body of the loop over the incoming items.\<close>

definition add_item ::
  "(string \<Rightarrow> string) \<Rightarrow> GroceryItem list dict \<Rightarrow> GroceryItem \<Rightarrow> GroceryItem list dict" where
  "add_item lower organized item =
     (if \<not> item_exists lower organized item
      then AList.map_entry (aisle item) (\<lambda>aisle_items. aisle_items @ [item])
             (if aisle item \<notin> set (map fst organized)
              then AList.update (aisle item) [] organized
              else organized)
      else organized)"

text \<open>
  The sort key of an aisle: its position in \<open>default_aisles\<close>, or the length of that list.
  \<open>index\<close> is \<open>list.index\<close>, with \<open>None\<close> for its \<open>ValueError\<close>, which the test
  \<open>x[0] in self.default_aisles\<close> excludes.
\<close>

fun index :: "'a list \<Rightarrow> 'a \<Rightarrow> nat option" where
  "index [] x = None"
| "index (y # ys) x = (if y = x then Some 0 else map_option Suc (index ys x))"

definition aisle_key :: "string \<times> 'v \<Rightarrow> nat" where
  "aisle_key x =
     (if fst x \<in> set default_aisles
      then (case index default_aisles (fst x) of Some i \<Rightarrow> i | None \<Rightarrow> length default_aisles)
      else length default_aisles)"

text \<open>\<open>dict(pairs)\<close>: the pairs are inserted from left to right.\<close>

definition dict_of :: "(string \<times> 'v) list \<Rightarrow> 'v dict" where
  "dict_of pairs = fold (\<lambda>kv d. AList.update (fst kv) (snd kv) d) pairs []"

text \<open>
  The last step of \<open>organize_by_aisle\<close>: \<open>dict(sorted(organized.items(), key=...))\<close>.
  Python's \<open>sorted\<close> is stable, as \<^const>\<open>sort_key\<close> is.
\<close>

definition sort_aisles :: "'v dict \<Rightarrow> 'v dict" where
  "sort_aisles organized = dict_of (sort_key aisle_key organized)"

definition organize_by_aisle ::
  "(string \<Rightarrow> string) \<Rightarrow> ListOrganizationAgent \<Rightarrow> GroceryItem list \<Rightarrow> bool \<Rightarrow> ListOrganizationAgent" where
  "organize_by_aisle lower ag items preserve_existing =
     (let organized = (if preserve_existing then dict_of (current_items ag) else []);
          organized = fold (\<lambda>item organized. add_item lower organized item) items organized
      in save_state (ag\<lparr>current_items := sort_aisles organized\<rparr>))"

subsection \<open>update_item_status and remove_item\<close>

text \<open>
  \<open>GroceryItem(**{**item.dict(), "checked": ...})\<close> for each item of the aisle; the
  constructor validates again, so the model keeps its error.
\<close>

definition set_checked :: "string \<Rightarrow> bool \<Rightarrow> GroceryItem \<Rightarrow> error + GroceryItem" where
  "set_checked item_id c item =
     GroceryItem_init
       (AList.update ''checked'' (JBool (if id' item = item_id then c else checked item)) (item_dict item))"

fun set_checked_list :: "string \<Rightarrow> bool \<Rightarrow> GroceryItem list \<Rightarrow> error + GroceryItem list" where
  "set_checked_list item_id c [] = Inr []"
| "set_checked_list item_id c (item # items) =
     (case set_checked item_id c item of
        Inl e \<Rightarrow> Inl e
      | Inr g \<Rightarrow> (case set_checked_list item_id c items of Inl e \<Rightarrow> Inl e | Inr gs \<Rightarrow> Inr (g # gs)))"

definition update_item_status ::
  "ListOrganizationAgent \<Rightarrow> string \<Rightarrow> string \<Rightarrow> bool \<Rightarrow> error + ListOrganizationAgent" where
  "update_item_status ag a item_id c =
     (case map_of (current_items ag) a of
        Some aisle_items \<Rightarrow>
          (case set_checked_list item_id c aisle_items of
             Inl e \<Rightarrow> Inl e
           | Inr gs \<Rightarrow> Inr (save_state (ag\<lparr>current_items := AList.update a gs (current_items ag)\<rparr>)))
      | None \<Rightarrow> Inr ag)"

definition remove_item :: "ListOrganizationAgent \<Rightarrow> string \<Rightarrow> string \<Rightarrow> ListOrganizationAgent" where
  "remove_item ag a item_id =
     (case map_of (current_items ag) a of
        Some aisle_items \<Rightarrow>
          (let kept = filter (\<lambda>item. id' item \<noteq> item_id) aisle_items;
               items_dict = AList.update a kept (current_items ag);
               items_dict = (if kept = [] then AList.delete a items_dict else items_dict)
           in save_state (ag\<lparr>current_items := items_dict\<rparr>))
      | None \<Rightarrow> ag)"

section \<open>Notions used by the properties\<close>

text \<open>All items of a state, aisle after aisle.\<close>

definition all_items :: "GroceryItem list dict \<Rightarrow> GroceryItem list" where
  "all_items items_dict = concat (map snd items_dict)"

text \<open>The invariant of the aisle lists: no aisle of the state has an empty list.\<close>

definition no_empty_aisle :: "GroceryItem list dict \<Rightarrow> bool" where
  "no_empty_aisle items_dict = list_all (\<lambda>kv. snd kv \<noteq> []) items_dict"

text \<open>
  The identity key as the specification words it (the lower-cased trimmed name), to be
  compared with the comparison that \<^const>\<open>item_exists\<close> makes.  \<open>spec_strip\<close> removes
  the ASCII white space at both ends, as \<open>str.strip()\<close> does.
\<close>

definition is_space :: "char \<Rightarrow> bool" where
  "is_space c = (c \<in> set [CHR '' '', CHR 0x09, CHR 0x0A, CHR 0x0B, CHR 0x0C, CHR 0x0D])"

definition spec_strip :: "string \<Rightarrow> string" where
  "spec_strip s = rev (dropWhile is_space (rev (dropWhile is_space s)))"

definition spec_identity_key :: "(string \<Rightarrow> string) \<Rightarrow> GroceryItem \<Rightarrow> string" where
  "spec_identity_key lower item = lower (spec_strip (name item))"

text \<open>Concrete items and states for the examples.\<close>

definition ex_milk :: GroceryItem where
  "ex_milk = \<lparr>id' = ''id1'', name = ''Milk'', aisle = ''Dairy'', quantity = None,
     quantity_unit = None, checked = False\<rparr>"

definition ex_milk_lower :: GroceryItem where
  "ex_milk_lower = \<lparr>id' = ''id2'', name = ''milk'', aisle = ''Dairy'', quantity = Some ''2'',
     quantity_unit = None, checked = False\<rparr>"

definition ex_milk_padded :: GroceryItem where
  "ex_milk_padded = \<lparr>id' = ''id3'', name = '' Milk'', aisle = ''Dairy'', quantity = None,
     quantity_unit = None, checked = False\<rparr>"

definition ex_peas :: GroceryItem where
  "ex_peas = \<lparr>id' = ''id4'', name = ''Peas'', aisle = ''Frozen'', quantity = Some ''1'',
     quantity_unit = Some ''bag'', checked = False\<rparr>"

definition ex_blank :: GroceryItem where
  "ex_blank = \<lparr>id' = ''id5'', name = [], aisle = [], quantity = None,
     quantity_unit = None, checked = False\<rparr>"

definition ex_agent :: ListOrganizationAgent where
  "ex_agent = \<lparr>current_items = [(''Dairy'', [ex_milk])], state_file = None\<rparr>"

definition ex_agent2 :: ListOrganizationAgent where
  "ex_agent2 = \<lparr>current_items = [(''Frozen'', [ex_peas]), (''Dairy'', [ex_milk])], state_file = None\<rparr>"

definition ex_uuids :: "nat \<Rightarrow> string" where
  "ex_uuids n = ''uuid-'' @ replicate n CHR ''x''"

section \<open>Properties\<close>

subsection \<open>Dicts, sorting and the merge loop\<close>

lemma update_fresh: "k \<notin> fst ` set al \<Longrightarrow> AList.update k v al = al @ [(k, v)]"
  by (induction al) auto

lemma fold_update_append:
  "distinct (map fst (acc @ xs)) \<Longrightarrow>
   fold (\<lambda>kv d. AList.update (fst kv) (snd kv) d) xs acc = acc @ xs"
proof (induction xs arbitrary: acc)
  case Nil
  then show ?case by simp
next
  case (Cons x xs)
  have fresh: "fst x \<notin> fst ` set acc" using Cons.prems by auto
  have "distinct (map fst ((acc @ [x]) @ xs))" using Cons.prems by simp
  from Cons.IH [OF this] show ?case by (simp add: update_fresh [OF fresh])
qed

lemma dict_of_wf: "wf_dict d \<Longrightarrow> dict_of d = d"
  unfolding wf_dict_def dict_of_def using fold_update_append [of "[]" d] by simp

lemma wf_fold_update:
  "distinct (map fst acc) \<Longrightarrow> distinct (map fst (fold (\<lambda>kv d. AList.update (fst kv) (snd kv) d) xs acc))"
  by (induction xs arbitrary: acc) (simp_all add: distinct_update)

lemma wf_dict_of: "wf_dict (dict_of xs)"
  unfolding wf_dict_def dict_of_def by (rule wf_fold_update) simp

lemma wf_add_item: "wf_dict organized \<Longrightarrow> wf_dict (add_item lower organized item)"
  unfolding wf_dict_def add_item_def by (simp add: distinct_map_entry distinct_update)

lemma wf_fold_add_item:
  "wf_dict organized \<Longrightarrow> wf_dict (fold (\<lambda>item organized. add_item lower organized item) items organized)"
  by (induction items arbitrary: organized) (simp_all add: wf_add_item)

lemma wf_sort_key: "wf_dict (sort_key f d) = wf_dict d"
proof -
  have "mset (map fst (sort_key f d)) = mset (map fst d)" by simp
  then show ?thesis unfolding wf_dict_def by (rule mset_eq_imp_distinct_iff)
qed

lemma sort_aisles_wf: "wf_dict d \<Longrightarrow> sort_aisles d = sort_key aisle_key d"
  unfolding sort_aisles_def by (simp add: dict_of_wf wf_sort_key)

lemma item_exists_all_items:
  "item_exists lower organized item \<longleftrightarrow> (\<exists>existing \<in> set (all_items organized). lower (name existing) = lower (name item))"
  unfolding item_exists_def all_items_def by (auto simp: list_ex_iff)

lemma existing_names_all_items:
  "existing_names lower d = (\<lambda>item. lower (name item)) ` set (all_items d)"
  by (simp add: existing_names_def all_items_def)

lemma item_exists_iff:
  "item_exists lower organized item \<longleftrightarrow> lower (name item) \<in> existing_names lower organized"
  unfolding item_exists_all_items existing_names_all_items image_iff by metis

lemma all_items_map_entry:
  "k \<in> fst ` set d \<Longrightarrow> mset (all_items (AList.map_entry k (\<lambda>l. l @ [x]) d)) = add_mset x (mset (all_items d))"
  unfolding all_items_def by (induction d) auto

lemma all_items_update_Nil:
  "k \<notin> fst ` set d \<Longrightarrow> all_items (AList.update k [] d) = all_items d"
  unfolding all_items_def by (simp add: update_fresh)

lemma all_items_add_item:
  "mset (all_items (add_item lower organized item)) =
     (if item_exists lower organized item then mset (all_items organized)
      else add_mset item (mset (all_items organized)))"
  unfolding add_item_def
  by (simp add: all_items_map_entry all_items_update_Nil dom_update)

lemma all_items_insort_key:
  "mset (all_items (insort_key f x d)) = mset (snd x) + mset (all_items d)"
  unfolding all_items_def by (induction d) auto

lemma all_items_sort_key: "mset (all_items (sort_key f d)) = mset (all_items d)"
  by (induction d) (simp_all add: all_items_insort_key, simp add: all_items_def)

lemma set_all_items: "set (all_items d) = (\<Union>kv \<in> set d. set (snd kv))"
  by (simp add: all_items_def)

lemma set_all_items_add_item:
  "set (all_items (add_item lower organized item)) =
     (if item_exists lower organized item then set (all_items organized)
      else insert item (set (all_items organized)))"
proof -
  have "set_mset (mset (all_items (add_item lower organized item))) =
     set_mset (if item_exists lower organized item then mset (all_items organized)
      else add_mset item (mset (all_items organized)))"
    by (simp only: all_items_add_item)
  then show ?thesis by (simp split: if_splits)
qed

lemma fold_add_item_exists:
  "item_exists lower organized item \<Longrightarrow>
   item_exists lower (fold (\<lambda>item organized. add_item lower organized item) items organized) item"
proof (induction items arbitrary: organized)
  case Nil
  then show ?case by simp
next
  case (Cons x xs)
  have "set (all_items organized) \<subseteq> set (all_items (add_item lower organized x))"
    by (auto simp: set_all_items_add_item)
  then have "item_exists lower (add_item lower organized x) item"
    using Cons.prems unfolding item_exists_all_items by blast
  then show ?case using Cons.IH by simp
qed

lemma map_of_sort_key: "wf_dict d \<Longrightarrow> map_of (sort_key f d) = map_of d"
  using map_of_inject_set [of "sort_key f d" d] wf_sort_key [of f d]
  by (simp add: wf_dict_def)


lemma organize_by_aisle_preserve:
  "wf_dict (current_items ag) \<Longrightarrow>
   organize_by_aisle lower ag items True =
     save_state (ag\<lparr>current_items :=
       sort_key aisle_key (fold (\<lambda>item organized. add_item lower organized item) items (current_items ag))\<rparr>)"
  by (simp add: organize_by_aisle_def dict_of_wf sort_aisles_wf wf_fold_add_item)

lemma current_items_save_state [simp]: "current_items (save_state ag) = current_items ag"
  by (simp add: save_state_def)

lemma categorize_items_preserve:
  "categorize_items lower ag uuids n categorized_data True = Inr new_items \<Longrightarrow>
   g \<in> set new_items \<Longrightarrow> lower (name g) \<notin> existing_names lower (current_items ag)"
  by (auto simp: categorize_items_def split: sum.splits)

lemmas ex_defs = ex_milk_def ex_milk_lower_def ex_peas_def ex_blank_def
  ex_agent_def ex_agent2_def

lemmas eval_defs = organize_by_aisle_def dict_of_def add_item_def item_exists_def
  sort_aisles_def aisle_key_def default_aisles_def save_state_def ascii_lower_def ascii_lower_char_def
  all_items_def wf_dict_def existing_names_def Let_def

lemma organize_by_aisle_replace:
  "current_items (organize_by_aisle lower ag items False) =
     sort_key aisle_key (fold (\<lambda>item organized. add_item lower organized item) items [])"
proof -
  have "wf_dict (fold (\<lambda>item organized. add_item lower organized item) items [])"
    by (rule wf_fold_add_item) (simp add: wf_dict_def)
  then show ?thesis by (simp add: organize_by_aisle_def sort_aisles_wf)
qed

lemma set_fold_add_item_mono:
  "set (all_items organized) \<subseteq> set (all_items (fold (\<lambda>item organized. add_item lower organized item) items organized))"
proof (induction items arbitrary: organized)
  case Nil
  then show ?case by simp
next
  case (Cons x xs)
  have "set (all_items organized) \<subseteq> set (all_items (add_item lower organized x))"
    by (auto simp: set_all_items_add_item)
  also have "\<dots> \<subseteq> set (all_items (fold (\<lambda>item organized. add_item lower organized item) xs (add_item lower organized x)))"
    by (rule Cons.IH)
  finally show ?case by simp
qed

lemma set_fold_add_item_subset:
  "set (all_items (fold (\<lambda>item organized. add_item lower organized item) items organized))
     \<subseteq> set (all_items organized) \<union> set items"
proof (induction items arbitrary: organized)
  case Nil
  then show ?case by simp
next
  case (Cons x xs)
  have "set (all_items (add_item lower organized x)) \<subseteq> insert x (set (all_items organized))"
    by (auto simp: set_all_items_add_item)
  with Cons.IH [of "add_item lower organized x"] show ?case by auto
qed

lemma existing_names_add_item:
  "existing_names lower (add_item lower organized item) = insert (lower (name item)) (existing_names lower organized)"
proof (cases "item_exists lower organized item")
  case True
  then have "lower (name item) \<in> existing_names lower organized"
    by (simp add: item_exists_iff)
  then show ?thesis using True by (simp add: add_item_def insert_absorb)
next
  case False
  then show ?thesis by (simp add: existing_names_all_items set_all_items_add_item)
qed

lemma existing_names_fold_add_item:
  "existing_names lower (fold (\<lambda>item organized. add_item lower organized item) items organized)
     = existing_names lower organized \<union> (\<lambda>item. lower (name item)) ` set items"
  by (induction items arbitrary: organized) (auto simp: existing_names_add_item)

lemma existing_names_Nil: "existing_names lower [] = {}"
  by (simp add: existing_names_def)

lemma distinct_names_add_item:
  assumes "distinct (map (\<lambda>y. lower (name y)) (all_items organized))"
  shows "distinct (map (\<lambda>y. lower (name y)) (all_items (add_item lower organized item)))"
proof (cases "item_exists lower organized item")
  case True
  then show ?thesis using assms by (simp add: add_item_def)
next
  case False
  have "mset (map (\<lambda>y. lower (name y)) (all_items (add_item lower organized item)))
          = mset (map (\<lambda>y. lower (name y)) (item # all_items organized))"
    using False by (simp add: all_items_add_item)
  then have "distinct (map (\<lambda>y. lower (name y)) (all_items (add_item lower organized item)))
          = distinct (map (\<lambda>y. lower (name y)) (item # all_items organized))"
    by (rule mset_eq_imp_distinct_iff)
  moreover have "lower (name item) \<notin> (\<lambda>y. lower (name y)) ` set (all_items organized)"
    using False by (simp add: item_exists_iff existing_names_all_items)
  ultimately show ?thesis using assms by simp
qed

lemma distinct_names_fold_add_item:
  "distinct (map (\<lambda>y. lower (name y)) (all_items organized)) \<Longrightarrow>
   distinct (map (\<lambda>y. lower (name y))
     (all_items (fold (\<lambda>item organized. add_item lower organized item) items organized)))"
  by (induction items arbitrary: organized) (simp_all add: distinct_names_add_item)

lemma distinct_names_sort_key:
  "distinct (map g (all_items (sort_key f d))) = distinct (map g (all_items d))"
proof -
  have "mset (map g (all_items (sort_key f d))) = mset (map g (all_items d))"
    by (simp add: all_items_sort_key)
  then show ?thesis by (rule mset_eq_imp_distinct_iff)
qed

lemma set_all_items_sort_key: "set (all_items (sort_key f d)) = set (all_items d)"
  using all_items_sort_key [of f d] by (rule mset_eq_setD)

lemma first_of_name_kept:
  assumes "\<forall>p \<in> set pre. lower (name p) \<noteq> lower (name x)"
  shows "x \<in> set (all_items (fold (\<lambda>item organized. add_item lower organized item) (pre @ x # post) []))"
proof -
  let ?add = "\<lambda>item organized. add_item lower organized item"
  have "existing_names lower (fold ?add pre []) = (\<lambda>item. lower (name item)) ` set pre"
    by (simp add: existing_names_fold_add_item existing_names_Nil)
  then have "lower (name x) \<notin> existing_names lower (fold ?add pre [])"
    using assms by (metis (no_types, lifting) image_iff)
  then have "x \<in> set (all_items (add_item lower (fold ?add pre []) x))"
    by (simp add: set_all_items_add_item item_exists_iff)
  then show ?thesis
    using set_fold_add_item_mono [where organized = "add_item lower (fold ?add pre []) x" and items = post and lower = lower]
    by auto
qed

subsection \<open>Merging an item whose name is already present\<close>

text \<open>
  Claim C1.  When the current state holds an item whose lower-cased name equals that of an
  incoming item, \<open>organize_by_aisle\<close> with \<open>preserve_existing = True\<close> drops the incoming
  item: wherever it stands among the incoming items the result is the result without it,
  and merging it alone leaves the content of the state as it was (the same aisles with the
  same lists, the same items with no duplicate and no second id).  The model of
  \<open>organize_by_aisle\<close> has no error branch.  \<open>categorize_items\<close> with
  \<open>preserve_existing = True\<close> returns no item of that lower-cased name either.  The
  lower-cased name is the value of \<open>lower\<close>, which is any function: the statement
  holds for Python's \<open>str.lower\<close> on all of Unicode.
\<close>

theorem merge_drops_existing_name:
  assumes wf: "wf_dict (current_items ag)"
    and ex: "\<exists>existing \<in> set (all_items (current_items ag)).
               lower (name existing) = lower (name item)"
  shows "organize_by_aisle lower ag (xs @ item # ys) True = organize_by_aisle lower ag (xs @ ys) True
       \<and> map_of (current_items (organize_by_aisle lower ag [item] True)) = map_of (current_items ag)
       \<and> mset (all_items (current_items (organize_by_aisle lower ag [item] True)))
           = mset (all_items (current_items ag))
       \<and> (\<forall>new_items. categorize_items lower ag uuids n categorized_data True = Inr new_items \<longrightarrow>
            (\<forall>g \<in> set new_items. lower (name g) \<noteq> lower (name item)))"
proof -
  let ?add = "\<lambda>item organized. add_item lower organized item"
  have here: "item_exists lower (current_items ag) item"
    using ex by (simp add: item_exists_all_items)
  have "item_exists lower (fold ?add xs (current_items ag)) item"
    using here by (rule fold_add_item_exists)
  then have skip: "fold ?add (xs @ item # ys) (current_items ag) = fold ?add (xs @ ys) (current_items ag)"
    by (simp add: add_item_def)
  have one: "add_item lower (current_items ag) item = current_items ag"
    using here by (simp add: add_item_def)
  have c1: "organize_by_aisle lower ag (xs @ item # ys) True = organize_by_aisle lower ag (xs @ ys) True"
    by (simp only: organize_by_aisle_preserve [OF wf] skip)
  have c2: "map_of (current_items (organize_by_aisle lower ag [item] True)) = map_of (current_items ag)"
    by (simp add: organize_by_aisle_preserve [OF wf] one map_of_sort_key [OF wf])
  have c3: "mset (all_items (current_items (organize_by_aisle lower ag [item] True)))
           = mset (all_items (current_items ag))"
    by (simp add: organize_by_aisle_preserve [OF wf] one all_items_sort_key)
  have c4: "\<forall>new_items. categorize_items lower ag uuids n categorized_data True = Inr new_items \<longrightarrow>
            (\<forall>g \<in> set new_items. lower (name g) \<noteq> lower (name item))"
    using here categorize_items_preserve [where lower = lower and ag = ag and uuids = uuids and n = n
        and categorized_data = categorized_data]
    by (metis item_exists_iff)
  from c1 c2 c3 c4 show ?thesis by blast
qed

theorem merge_drops_existing_name_witness:
  "wf_dict (current_items ex_agent)
   \<and> (\<exists>existing \<in> set (all_items (current_items ex_agent)).
         ascii_lower (name existing) = ascii_lower (name ex_milk_lower))
   \<and> organize_by_aisle ascii_lower ex_agent ([] @ ex_milk_lower # [ex_peas]) True
       = organize_by_aisle ascii_lower ex_agent ([] @ [ex_peas]) True
   \<and> map_of (current_items (organize_by_aisle ascii_lower ex_agent [ex_milk_lower] True))
       = map_of [(''Dairy'', [ex_milk])]"
proof -
  have wf: "wf_dict (current_items ex_agent)"
    by (simp add: ex_defs wf_dict_def)
  have ex: "\<exists>existing \<in> set (all_items (current_items ex_agent)).
         ascii_lower (name existing) = ascii_lower (name ex_milk_lower)"
    by (simp add: ex_defs all_items_def ascii_lower_def ascii_lower_char_def)
  have cur: "current_items ex_agent = [(''Dairy'', [ex_milk])]"
    by (simp add: ex_agent_def)
  from merge_drops_existing_name [OF wf ex, where xs = "[]" and ys = "[ex_peas]"] wf ex show ?thesis
    unfolding cur by blast
qed

subsection \<open>Merging without preserving the existing items\<close>

text \<open>
  Claim C2, as the code has it.  With \<open>preserve_existing = False\<close> the loop of
  \<open>organize_by_aisle\<close> starts from the empty dict, so an incoming item is added whatever
  the current state holds: every incoming item has an item of its lower-cased name in the
  result, an incoming item that no earlier incoming item shares its lower-cased name with
  is itself in the result, and a single incoming item is the whole result.  The test for
  an existing item runs in this mode too, against the items added so far: the lower-cased
  names of the result are pairwise distinct, so of two incoming items with the same
  identity key only the first is appended.  \<open>lower\<close> is any function, Python's
  \<open>str.lower\<close> among them.
\<close>

theorem merge_without_preserve:
  "(\<forall>x \<in> set items. \<exists>y \<in> set (all_items (current_items (organize_by_aisle lower ag items False))).
       lower (name y) = lower (name x))
   \<and> distinct (map (\<lambda>y. lower (name y))
        (all_items (current_items (organize_by_aisle lower ag items False))))
   \<and> (\<forall>pre x post. items = pre @ x # post
         \<and> (\<forall>p \<in> set pre. lower (name p) \<noteq> lower (name x))
        \<longrightarrow> x \<in> set (all_items (current_items (organize_by_aisle lower ag items False))))
   \<and> current_items (organize_by_aisle lower ag [item] False) = [(aisle item, [item])]"
proof -
  let ?add = "\<lambda>item organized. add_item lower organized item"
  let ?r = "all_items (current_items (organize_by_aisle lower ag items False))"
  have names: "existing_names lower (current_items (organize_by_aisle lower ag items False))
                 = (\<lambda>item. lower (name item)) ` set items"
    unfolding existing_names_all_items organize_by_aisle_replace set_all_items_sort_key
    using existing_names_fold_add_item [where items = items and organized = "[]" and lower = lower]
    by (simp add: existing_names_all_items existing_names_Nil [unfolded existing_names_all_items])
  have c1: "\<forall>x \<in> set items. \<exists>y \<in> set ?r. lower (name y) = lower (name x)"
    using names unfolding existing_names_all_items by (metis (no_types, lifting) image_iff)
  have c2: "distinct (map (\<lambda>y. lower (name y)) ?r)"
    unfolding organize_by_aisle_replace distinct_names_sort_key
    by (rule distinct_names_fold_add_item) (simp add: all_items_def)
  have c3: "\<forall>pre x post. items = pre @ x # post
         \<and> (\<forall>p \<in> set pre. lower (name p) \<noteq> lower (name x)) \<longrightarrow> x \<in> set ?r"
    unfolding organize_by_aisle_replace set_all_items_sort_key
    using first_of_name_kept by blast
  have c4: "current_items (organize_by_aisle lower ag [item] False) = [(aisle item, [item])]"
    unfolding organize_by_aisle_replace
    by (simp add: add_item_def item_exists_def)
  from c1 c2 c3 c4 show ?thesis by blast
qed

text \<open>
  The claim as stated fails: of two incoming items named \<open>Milk\<close> and \<open>milk\<close>, merged
  with \<open>preserve_existing = False\<close>, only the first is in the result.  The names are
  ASCII, on which \<open>str.lower\<close> is \<open>ascii_lower\<close>.
\<close>

theorem merge_without_preserve_counterexample:
  "ascii_lower (name ex_milk) = ascii_lower (name ex_milk_lower)
   \<and> current_items (organize_by_aisle ascii_lower ex_agent2 [ex_milk, ex_milk_lower] False) = [(''Dairy'', [ex_milk])]
   \<and> ex_milk_lower \<notin> set (all_items (current_items (organize_by_aisle ascii_lower ex_agent2 [ex_milk, ex_milk_lower] False)))"
  by (simp add: ex_defs eval_defs Let_def)

theorem merge_without_preserve_witness:
  "ascii_lower (name ex_peas) \<noteq> ascii_lower (name ex_milk_lower)
   \<and> ex_milk_lower \<in> set (all_items (current_items
         (organize_by_aisle ascii_lower ex_agent ([ex_peas] @ ex_milk_lower # [ex_milk]) False)))
   \<and> (\<exists>y \<in> set (all_items (current_items
         (organize_by_aisle ascii_lower ex_agent ([ex_peas] @ ex_milk_lower # [ex_milk]) False))).
         ascii_lower (name y) = ascii_lower (name ex_milk))"
proof -
  have n: "ascii_lower (name ex_peas) \<noteq> ascii_lower (name ex_milk_lower)"
    by (simp add: ex_defs ascii_lower_def ascii_lower_char_def)
  then have h: "\<forall>p \<in> set [ex_peas]. ascii_lower (name p) \<noteq> ascii_lower (name ex_milk_lower)"
    by simp
  have m: "ex_milk \<in> set ([ex_peas] @ ex_milk_lower # [ex_milk])" by simp
  from merge_without_preserve
         [where items = "[ex_peas] @ ex_milk_lower # [ex_milk]" and ag = ex_agent and lower = ascii_lower]
       h m n
  show ?thesis by blast
qed

subsection \<open>Without preserving, the existing list is replaced\<close>

text \<open>
  Claim C9.  With \<open>preserve_existing = False\<close> the result does not depend on the current
  state, it holds incoming items only, their lower-cased names are pairwise distinct, and
  every item of the current state whose identity key is not the key of an incoming item is
  absent from the result, whatever function of the item \<open>key\<close> is, and whatever
  function \<open>lower\<close> is.
\<close>

theorem merge_without_preserve_replaces:
  "current_items (organize_by_aisle lower ag items False)
     = current_items (organize_by_aisle lower (ag\<lparr>current_items := []\<rparr>) items False)
   \<and> set (all_items (current_items (organize_by_aisle lower ag items False))) \<subseteq> set items
   \<and> distinct (map (\<lambda>y. lower (name y))
        (all_items (current_items (organize_by_aisle lower ag items False))))
   \<and> (\<forall>x \<in> set (all_items (current_items ag)).
        key x \<notin> key ` set items
        \<longrightarrow> x \<notin> set (all_items (current_items (organize_by_aisle lower ag items False))))"
proof -
  let ?r = "all_items (current_items (organize_by_aisle lower ag items False))"
  have c1: "current_items (organize_by_aisle lower ag items False)
     = current_items (organize_by_aisle lower (ag\<lparr>current_items := []\<rparr>) items False)"
    by (simp only: organize_by_aisle_replace)
  have c2: "set ?r \<subseteq> set items"
    unfolding organize_by_aisle_replace set_all_items_sort_key
    using set_fold_add_item_subset [where items = items and organized = "[]" and lower = lower]
    by (simp add: all_items_def)
  have c3: "distinct (map (\<lambda>y. lower (name y)) ?r)"
    unfolding organize_by_aisle_replace distinct_names_sort_key
    by (rule distinct_names_fold_add_item) (simp add: all_items_def)
  have c4: "\<forall>x \<in> set (all_items (current_items ag)). key x \<notin> key ` set items \<longrightarrow> x \<notin> set ?r"
    using c2 by blast
  from c1 c2 c3 c4 show ?thesis by blast
qed

theorem merge_without_preserve_replaces_witness:
  "ex_peas \<in> set (all_items (current_items ex_agent2))
   \<and> ascii_lower (name ex_peas) \<notin> (\<lambda>item. ascii_lower (name item)) ` set [ex_milk_lower]
   \<and> ex_peas \<notin> set (all_items (current_items (organize_by_aisle ascii_lower ex_agent2 [ex_milk_lower] False)))"
proof -
  have a: "ex_peas \<in> set (all_items (current_items ex_agent2))"
    by (simp add: ex_agent2_def all_items_def)
  have b: "ascii_lower (name ex_peas) \<notin> (\<lambda>item. ascii_lower (name item)) ` set [ex_milk_lower]"
    by (simp add: ex_defs ascii_lower_def ascii_lower_char_def)
  from merge_without_preserve_replaces
         [where ag = ex_agent2 and items = "[ex_milk_lower]" and lower = ascii_lower
            and key = "\<lambda>item. ascii_lower (name item)"]
       a b
  show ?thesis by blast
qed

subsection \<open>Which items the merge takes for the same item\<close>

lemma organize_by_aisle_single:
  "wf_dict (current_items ag) \<Longrightarrow>
   mset (all_items (current_items (organize_by_aisle lower ag [item] True))) =
     (if \<exists>e \<in> set (all_items (current_items ag)). lower (name e) = lower (name item)
      then mset (all_items (current_items ag))
      else add_mset item (mset (all_items (current_items ag))))"
  by (simp add: organize_by_aisle_preserve all_items_sort_key all_items_add_item item_exists_all_items)

lemma categorize_items_filter:
  "categorize_items lower ag uuids n categorized_data True = Inr new_items \<Longrightarrow>
   \<exists>unfiltered. categorize_items lower ag uuids n categorized_data False = Inr unfiltered
     \<and> new_items = filter (\<lambda>g. \<not> item_exists lower (current_items ag) g) unfiltered"
  by (auto simp: categorize_items_def item_exists_iff split: sum.splits)

text \<open>
  Claim C3, as the code has it.  The merge compares the lower-cased names as they are,
  without trimming: one item is taken for another exactly when their lower-cased names
  are equal.  An incoming item is taken as existing exactly when some item of the state
  has the same lower-cased name; merged alone with \<open>preserve_existing = True\<close> it is
  added exactly when no item of the state has; and \<open>categorize_items\<close> with
  \<open>preserve_existing = True\<close> returns exactly the new items that are not taken as
  existing.  \<open>lower\<close> is any function, Python's \<open>str.lower\<close> among them; the
  identity of the merge is equality of \<open>lower (name item)\<close>, and a name that differs
  from an existing one by surrounding white space is the name of another item whenever
  \<open>lower\<close> tells the two names apart, as \<open>str.lower\<close> does.
\<close>

theorem merge_identity_is_lowercase_name:
  assumes wf: "wf_dict (current_items ag)"
  shows "(item_exists lower [(aisle a, [a])] b \<longleftrightarrow> lower (name a) = lower (name b))
   \<and> (item_exists lower (current_items ag) item \<longleftrightarrow>
        (\<exists>e \<in> set (all_items (current_items ag)). lower (name e) = lower (name item)))
   \<and> mset (all_items (current_items (organize_by_aisle lower ag [item] True))) =
        (if \<exists>e \<in> set (all_items (current_items ag)). lower (name e) = lower (name item)
         then mset (all_items (current_items ag))
         else add_mset item (mset (all_items (current_items ag))))
   \<and> (\<forall>new_items. categorize_items lower ag uuids n categorized_data True = Inr new_items \<longrightarrow>
        (\<exists>unfiltered. categorize_items lower ag uuids n categorized_data False = Inr unfiltered
           \<and> new_items = filter (\<lambda>g. \<not> item_exists lower (current_items ag) g) unfiltered))"
proof -
  have c1: "item_exists lower [(aisle a, [a])] b \<longleftrightarrow> lower (name a) = lower (name b)"
    by (simp add: item_exists_def)
  have c2: "item_exists lower (current_items ag) item \<longleftrightarrow>
        (\<exists>e \<in> set (all_items (current_items ag)). lower (name e) = lower (name item))"
    by (rule item_exists_all_items)
  note c3 = organize_by_aisle_single [OF wf, where item = item and lower = lower]
  have c4: "\<forall>new_items. categorize_items lower ag uuids n categorized_data True = Inr new_items \<longrightarrow>
        (\<exists>unfiltered. categorize_items lower ag uuids n categorized_data False = Inr unfiltered
           \<and> new_items = filter (\<lambda>g. \<not> item_exists lower (current_items ag) g) unfiltered)"
    using categorize_items_filter by blast
  from c1 c2 c3 c4 show ?thesis by blast
qed

text \<open>
  The claim as stated fails: \<open>'' Milk''\<close> and \<open>''Milk''\<close> have the same lower-cased
  trimmed name, and the merge keeps both.  The names are ASCII, on which \<open>str.lower\<close>
  is \<open>ascii_lower\<close>.
\<close>

theorem merge_identity_counterexample:
  "spec_identity_key ascii_lower ex_milk_padded = spec_identity_key ascii_lower ex_milk
   \<and> \<not> item_exists ascii_lower (current_items ex_agent) ex_milk_padded
   \<and> current_items (organize_by_aisle ascii_lower ex_agent [ex_milk_padded] True)
       = [(''Dairy'', [ex_milk, ex_milk_padded])]"
  by (simp add: ex_defs ex_milk_padded_def eval_defs spec_identity_key_def spec_strip_def
        is_space_def)

theorem merge_identity_is_lowercase_name_witness:
  "wf_dict (current_items ex_agent)
   \<and> \<not> (\<exists>e \<in> set (all_items (current_items ex_agent)). ascii_lower (name e) = ascii_lower (name ex_milk_padded))
   \<and> mset (all_items (current_items (organize_by_aisle ascii_lower ex_agent [ex_milk_padded] True)))
       = add_mset ex_milk_padded (mset (all_items (current_items ex_agent)))"
proof -
  have wf: "wf_dict (current_items ex_agent)"
    by (simp add: ex_defs wf_dict_def)
  have no: "\<not> (\<exists>e \<in> set (all_items (current_items ex_agent)). ascii_lower (name e) = ascii_lower (name ex_milk_padded))"
    by (simp add: ex_defs ex_milk_padded_def all_items_def ascii_lower_def ascii_lower_char_def)
  from merge_identity_is_lowercase_name [OF wf, where item = ex_milk_padded and lower = ascii_lower]
       wf no
  show ?thesis
    by presburger
qed

subsection \<open>Loading the state\<close>


lemma GroceryItem_init_raises: "GroceryItem_init kwargs = Inl e \<Longrightarrow> e = ValidationError"
  by (auto simp: GroceryItem_init_def split: option.splits)








subsection \<open>Saving and loading again\<close>

lemma str_field_item_dict:
  "str_field (item_dict item) ''id'' = Some (id' item)"
  "str_field (item_dict item) ''name'' = Some (name item)"
  "str_field (item_dict item) ''aisle'' = Some (aisle item)"
  by (simp_all add: str_field_def item_dict_def)

lemma opt_str_field_item_dict:
  "opt_str_field (item_dict item) ''quantity'' = Some (quantity item)"
  "opt_str_field (item_dict item) ''quantity_unit'' = Some (quantity_unit item)"
  by (simp_all add: opt_str_field_def item_dict_def opt_json_def split: option.splits)

lemma bool_field_item_dict: "bool_field (item_dict item) ''checked'' = Some (checked item)"
  by (simp add: bool_field_def item_dict_def)

lemma GroceryItem_init_item_dict: "GroceryItem_init (item_dict item) = Inr item"
  by (simp add: GroceryItem_init_def str_field_item_dict opt_str_field_item_dict bool_field_item_dict)

lemma GroceryItem_list_item_dict:
  "GroceryItem_list (map (\<lambda>item. JObj (item_dict item)) items) = Inr items"
  by (induction items) (simp_all add: GroceryItem_of_def GroceryItem_init_item_dict)

lemma load_aisles_saved:
  "load_aisles items_dict
     (map (\<lambda>(a, items). (a, JArr (map (\<lambda>item. JObj (item_dict item)) items))) d)
   = Inr (fold (\<lambda>kv acc. AList.update (fst kv) (snd kv) acc) d items_dict)"
  by (induction d arbitrary: items_dict)
     (auto simp: py_iter_def GroceryItem_list_item_dict)

lemma load_state_state_json: "load_state (Reachable (Some (JSON (state_json d)))) = Inr (dict_of d)"
  by (simp add: load_state_def state_json_def load_aisles_saved dict_of_def)

text \<open>
  Claim C7.  For every state that is a dict (pairwise distinct aisle keys), empty or not,
  with any number of aisles and any values of the optional fields, loading the document
  that \<open>save_state\<close> wrote returns the state: the same aisles in the same order with the
  same items.
\<close>

theorem load_save_roundtrip:
  "wf_dict (current_items ag) \<Longrightarrow>
   load_state (Reachable (state_file (save_state ag))) = Inr (current_items ag)"
  by (simp add: save_state_def load_state_state_json dict_of_wf)

theorem load_save_roundtrip_witness:
  "wf_dict (current_items ex_agent2)
   \<and> load_state (Reachable (state_file (save_state ex_agent2)))
       = Inr [(''Frozen'', [ex_peas]), (''Dairy'', [ex_milk])]"
proof -
  have wf: "wf_dict (current_items ex_agent2)"
    by (simp add: ex_agent2_def wf_dict_def)
  from load_save_roundtrip [OF wf] wf show ?thesis by (simp add: ex_agent2_def)
qed

subsection \<open>update_item_status\<close>

lemma update_checked_item_dict:
  "AList.update ''checked'' (JBool b) (item_dict item) = item_dict (item\<lparr>checked := b\<rparr>)"
  by (simp add: item_dict_def)

lemma set_checked_eq:
  "set_checked item_id c item = Inr (item\<lparr>checked := (if id' item = item_id then c else checked item)\<rparr>)"
  by (simp only: set_checked_def update_checked_item_dict GroceryItem_init_item_dict)

lemma set_checked_list_eq:
  "set_checked_list item_id c items =
     Inr (map (\<lambda>item. item\<lparr>checked := (if id' item = item_id then c else checked item)\<rparr>) items)"
  by (induction items) (simp_all add: set_checked_eq)

lemma map_set_checked_no_match:
  "\<forall>item \<in> set items. id' item \<noteq> item_id \<Longrightarrow>
   map (\<lambda>item. item\<lparr>checked := (if id' item = item_id then c else checked item)\<rparr>) items = items"
  by (induction items) simp_all

text \<open>
  Claim C10.  When the aisle is a key of the state, \<open>update_item_status\<close> returns without
  an exception and the state file then holds the document of the whole resulting state,
  whatever it held before.  In the resulting state the list of that aisle is the old list
  with the \<open>checked\<close> field of every item whose id matches set to the given value, every
  other field and every other item as before, and the other aisles are untouched; when no
  id of the aisle matches, the state is the old state, and the file is written all the
  same.
\<close>

theorem update_item_status_writes_and_frames:
  assumes "map_of (current_items ag) a = Some aisle_items"
  shows "\<exists>ag'. update_item_status ag a item_id c = Inr ag'
     \<and> state_file ag' = Some (JSON (state_json (current_items ag')))
     \<and> current_items ag' = AList.update a
          (map (\<lambda>item. item\<lparr>checked := (if id' item = item_id then c else checked item)\<rparr>) aisle_items)
          (current_items ag)
     \<and> ((\<forall>item \<in> set aisle_items. id' item \<noteq> item_id) \<longrightarrow> current_items ag' = current_items ag)"
proof -
  let ?gs = "map (\<lambda>item. item\<lparr>checked := (if id' item = item_id then c else checked item)\<rparr>) aisle_items"
  let ?ag' = "save_state (ag\<lparr>current_items := AList.update a ?gs (current_items ag)\<rparr>)"
  have r: "update_item_status ag a item_id c = Inr ?ag'"
    by (simp add: update_item_status_def assms set_checked_list_eq)
  have f: "state_file ?ag' = Some (JSON (state_json (current_items ?ag')))"
    by (simp add: save_state_def)
  have k: "current_items ?ag' = AList.update a ?gs (current_items ag)"
    by simp
  have u: "(\<forall>item \<in> set aisle_items. id' item \<noteq> item_id) \<longrightarrow> current_items ?ag' = current_items ag"
  proof
    assume "\<forall>item \<in> set aisle_items. id' item \<noteq> item_id"
    then have "?gs = aisle_items" by (rule map_set_checked_no_match)
    then show "current_items ?ag' = current_items ag"
      using assms by (simp add: update_triv)
  qed
  from r f k u show ?thesis by blast
qed

theorem update_item_status_writes_and_frames_witness:
  "map_of (current_items ex_agent2) ''Dairy'' = Some [ex_milk]
   \<and> id' ex_milk \<noteq> ''no-such-id''
   \<and> (\<exists>ag'. update_item_status ex_agent2 ''Dairy'' ''no-such-id'' True = Inr ag'
        \<and> state_file ag' = Some (JSON (state_json (current_items ex_agent2)))
        \<and> current_items ag' = current_items ex_agent2)"
proof -
  have m: "map_of (current_items ex_agent2) ''Dairy'' = Some [ex_milk]"
    by (simp add: ex_agent2_def)
  have i: "id' ex_milk \<noteq> ''no-such-id''"
    by (simp add: ex_milk_def)
  then have n: "\<forall>item \<in> set [ex_milk]. id' item \<noteq> ''no-such-id''"
    by simp
  from update_item_status_writes_and_frames [OF m, of "''no-such-id''" True]
  obtain ag' where r: "update_item_status ex_agent2 ''Dairy'' ''no-such-id'' True = Inr ag'"
    and f: "state_file ag' = Some (JSON (state_json (current_items ag')))"
    and u: "(\<forall>item \<in> set [ex_milk]. id' item \<noteq> ''no-such-id'') \<longrightarrow> current_items ag' = current_items ex_agent2"
    by blast
  from u n have e: "current_items ag' = current_items ex_agent2" by blast
  from r f e have "update_item_status ex_agent2 ''Dairy'' ''no-such-id'' True = Inr ag'
        \<and> state_file ag' = Some (JSON (state_json (current_items ex_agent2)))
        \<and> current_items ag' = current_items ex_agent2" by simp
  then have "\<exists>ag'. update_item_status ex_agent2 ''Dairy'' ''no-such-id'' True = Inr ag'
        \<and> state_file ag' = Some (JSON (state_json (current_items ex_agent2)))
        \<and> current_items ag' = current_items ex_agent2" by (rule exI)
  with m i show ?thesis by blast
qed

subsection \<open>No aisle with an empty list\<close>

lemma no_empty_update:
  "no_empty_aisle d \<Longrightarrow> v \<noteq> [] \<Longrightarrow> no_empty_aisle (AList.update k v d)"
  unfolding no_empty_aisle_def by (induction d) auto

lemma no_empty_delete: "no_empty_aisle d \<Longrightarrow> no_empty_aisle (AList.delete k d)"
  unfolding no_empty_aisle_def by (induction d) auto

lemma no_empty_delete_update:
  "no_empty_aisle d \<Longrightarrow> no_empty_aisle (AList.delete k (AList.update k v d))"
  by (simp add: delete_update_same no_empty_delete)

lemma no_empty_map_entry:
  "no_empty_aisle d \<Longrightarrow> no_empty_aisle (AList.map_entry k (\<lambda>l. l @ [x]) d)"
  unfolding no_empty_aisle_def by (induction d) auto

lemma map_entry_update_fresh:
  "k \<notin> fst ` set d \<Longrightarrow> AList.map_entry k f (AList.update k v d) = d @ [(k, f v)]"
  by (induction d) auto

lemma no_empty_add_item: "no_empty_aisle d \<Longrightarrow> no_empty_aisle (add_item lower d item)"
  by (simp add: add_item_def no_empty_map_entry map_entry_update_fresh)
     (simp add: no_empty_aisle_def)

lemma no_empty_fold_add_item:
  "no_empty_aisle d \<Longrightarrow> no_empty_aisle (fold (\<lambda>item organized. add_item lower organized item) items d)"
  by (induction items arbitrary: d) (simp_all add: no_empty_add_item)

lemma no_empty_fold_update:
  "no_empty_aisle acc \<Longrightarrow> no_empty_aisle xs \<Longrightarrow>
   no_empty_aisle (fold (\<lambda>kv d. AList.update (fst kv) (snd kv) d) xs acc)"
proof (induction xs arbitrary: acc)
  case Nil
  then show ?case by simp
next
  case (Cons x xs)
  have "snd x \<noteq> []" using Cons.prems(2) by (simp add: no_empty_aisle_def)
  with Cons.prems(1) have "no_empty_aisle (AList.update (fst x) (snd x) acc)"
    by (rule no_empty_update)
  moreover have "no_empty_aisle xs" using Cons.prems by (simp add: no_empty_aisle_def)
  ultimately show ?case using Cons.IH by simp
qed

lemma no_empty_dict_of: "no_empty_aisle d \<Longrightarrow> no_empty_aisle (dict_of d)"
  unfolding dict_of_def by (rule no_empty_fold_update) (simp_all add: no_empty_aisle_def)

lemma no_empty_sort_key: "no_empty_aisle (sort_key f d) = no_empty_aisle d"
  by (simp add: no_empty_aisle_def list_all_iff)

lemma no_empty_sort_aisles: "no_empty_aisle d \<Longrightarrow> no_empty_aisle (sort_aisles d)"
  by (simp add: sort_aisles_def no_empty_dict_of no_empty_sort_key)

lemma no_empty_organize_by_aisle:
  "no_empty_aisle (current_items ag) \<Longrightarrow>
   no_empty_aisle (current_items (organize_by_aisle lower ag items preserve_existing))"
proof -
  assume inv: "no_empty_aisle (current_items ag)"
  have e: "no_empty_aisle ([] :: GroceryItem list dict)" by (simp add: no_empty_aisle_def)
  show ?thesis
    by (cases preserve_existing)
       (simp_all add: organize_by_aisle_def no_empty_sort_aisles no_empty_fold_add_item
          no_empty_dict_of inv e)
qed

lemma no_empty_lookup: "no_empty_aisle d \<Longrightarrow> map_of d k = Some v \<Longrightarrow> v \<noteq> []"
  using map_of_SomeD [of d k v] by (fastforce simp: no_empty_aisle_def list_all_iff)

lemma no_empty_update_item_status:
  assumes "no_empty_aisle (current_items ag)"
  shows "\<exists>ag'. update_item_status ag a item_id c = Inr ag' \<and> no_empty_aisle (current_items ag')"
proof (cases "map_of (current_items ag) a")
  case None
  then show ?thesis using assms by (simp add: update_item_status_def)
next
  case (Some aisle_items)
  then have "aisle_items \<noteq> []" using assms by (metis no_empty_lookup)
  then show ?thesis using assms Some
    by (simp add: update_item_status_def set_checked_list_eq no_empty_update)
qed

lemma no_empty_remove_item:
  "no_empty_aisle (current_items ag) \<Longrightarrow> no_empty_aisle (current_items (remove_item ag a item_id))"
  by (simp add: remove_item_def Let_def no_empty_update no_empty_delete_update split: option.splits)

lemma remove_item_sole:
  assumes "map_of (current_items ag) a = Some aisle_items"
    and "\<forall>item \<in> set aisle_items. id' item = item_id"
  shows "a \<notin> set (map fst (current_items (remove_item ag a item_id)))"
proof -
  have "filter (\<lambda>item. id' item \<noteq> item_id) aisle_items = []"
    using assms(2) by (simp add: filter_empty_conv)
  then show ?thesis using assms(1)
    by (simp add: remove_item_def delete_notin_dom)
qed

text \<open>
  Claim C5.  If no aisle of the current state has an empty list, then none has after
  \<open>organize_by_aisle\<close> (in either mode, for any \<open>lower\<close>), after \<open>update_item_status\<close> (which returns
  without an exception) and after \<open>remove_item\<close>; and removing the only item of an aisle
  removes the aisle key from the state.
\<close>

theorem mutations_keep_aisles_nonempty:
  assumes "no_empty_aisle (current_items ag)"
  shows "no_empty_aisle (current_items (organize_by_aisle lower ag items preserve_existing))
   \<and> (\<exists>ag'. update_item_status ag a item_id c = Inr ag' \<and> no_empty_aisle (current_items ag'))
   \<and> no_empty_aisle (current_items (remove_item ag a item_id))
   \<and> (\<forall>item. map_of (current_items ag) a = Some [item] \<longrightarrow>
         a \<notin> set (map fst (current_items (remove_item ag a (id' item))))
         \<and> no_empty_aisle (current_items (remove_item ag a (id' item))))"
proof -
  have c4: "\<forall>item. map_of (current_items ag) a = Some [item] \<longrightarrow>
         a \<notin> set (map fst (current_items (remove_item ag a (id' item))))
         \<and> no_empty_aisle (current_items (remove_item ag a (id' item)))"
    using remove_item_sole [of ag a] no_empty_remove_item [OF assms] by simp
  from no_empty_organize_by_aisle [OF assms] no_empty_update_item_status [OF assms]
    no_empty_remove_item [OF assms] c4
  show ?thesis by blast
qed

theorem mutations_keep_aisles_nonempty_witness:
  "no_empty_aisle (current_items ex_agent2)
   \<and> map_of (current_items ex_agent2) ''Frozen'' = Some [ex_peas]
   \<and> ''Frozen'' \<notin> set (map fst (current_items (remove_item ex_agent2 ''Frozen'' (id' ex_peas))))
   \<and> no_empty_aisle (current_items (remove_item ex_agent2 ''Frozen'' (id' ex_peas)))
   \<and> no_empty_aisle (current_items (organize_by_aisle ascii_lower ex_agent2 [ex_blank] True))"
proof -
  have inv: "no_empty_aisle (current_items ex_agent2)"
    by (simp add: ex_agent2_def no_empty_aisle_def)
  have m: "map_of (current_items ex_agent2) ''Frozen'' = Some [ex_peas]"
    by (simp add: ex_agent2_def)
  from mutations_keep_aisles_nonempty
         [OF inv, where items = "[ex_blank]" and preserve_existing = True and a = "''Frozen''"
            and lower = ascii_lower]
       inv m
  show ?thesis by blast
qed

subsection \<open>The order of the aisles\<close>

lemma aisle_key_fst: "aisle_key kv = aisle_key (fst kv, ())"
  by (simp add: aisle_key_def)

lemma aisle_key_le: "aisle_key kv \<le> length default_aisles"
  by (simp add: aisle_key_def default_aisles_def)

lemma aisle_key_default_aisles:
  "map (\<lambda>a. aisle_key (a, ())) default_aisles = [0..<length default_aisles]"
  by (simp add: aisle_key_def default_aisles_def upt_rec)

lemma index_None_iff: "index xs x = None \<longleftrightarrow> x \<notin> set xs"
  by (induction xs) auto

lemma index_less: "index xs x = Some i \<Longrightarrow> i < length xs"
  by (induction xs arbitrary: i) (auto split: if_splits)

lemma aisle_key_known: "aisle_key kv < length default_aisles \<longleftrightarrow> fst kv \<in> set default_aisles"
proof (cases "index default_aisles (fst kv)")
  case None
  then show ?thesis by (simp add: aisle_key_def index_None_iff)
next
  case (Some i)
  then have "fst kv \<in> set default_aisles" using index_None_iff [of default_aisles "fst kv"] by auto
  then show ?thesis using Some index_less [OF Some] by (simp add: aisle_key_def)
qed

lemma aisle_key_unknown: "fst kv \<notin> set default_aisles \<Longrightarrow> aisle_key kv = length default_aisles"
  by (simp add: aisle_key_def)

lemma insort_key_append_le:
  "\<forall>u \<in> set us. f x \<le> f u \<Longrightarrow> insort_key f x (ks @ us) = insort_key f x ks @ us"
  by (induction ks) (auto simp: insort_is_Cons)

lemma insort_key_append_gt:
  "\<forall>k \<in> set ks. f k < f x \<Longrightarrow> \<forall>u \<in> set us. f x \<le> f u \<Longrightarrow>
   insort_key f x (ks @ us) = ks @ x # us"
  by (induction ks) (auto simp: insort_is_Cons)

lemma sort_key_known_unknown:
  "sort_key aisle_key s =
     sort_key aisle_key (filter (\<lambda>kv. fst kv \<in> set default_aisles) s)
     @ filter (\<lambda>kv. fst kv \<notin> set default_aisles) s"
proof (induction s)
  case Nil
  then show ?case by simp
next
  case (Cons x s)
  let ?ks = "sort_key aisle_key (filter (\<lambda>kv. fst kv \<in> set default_aisles) s)"
  let ?us = "filter (\<lambda>kv. fst kv \<notin> set default_aisles) s"
  have us: "\<forall>u \<in> set ?us. aisle_key x \<le> aisle_key u"
    by (simp add: aisle_key_unknown aisle_key_le)
  show ?case
  proof (cases "fst x \<in> set default_aisles")
    case True
    then show ?thesis using Cons.IH us by (simp add: insort_key_append_le)
  next
    case False
    have ks: "\<forall>k \<in> set ?ks. aisle_key k < aisle_key x"
      using False by (simp add: aisle_key_unknown aisle_key_known)
    show ?thesis using False Cons.IH insort_key_append_gt [OF ks us] by simp
  qed
qed

lemma known_aisles_in_canonical_order:
  assumes "wf_dict s"
  shows "filter (\<lambda>a. a \<in> set default_aisles) (map fst (sort_key aisle_key s))
           = filter (\<lambda>a. a \<in> fst ` set s) default_aisles"
proof -
  let ?p = "\<lambda>a. aisle_key (a, ())"
  let ?K = "filter (\<lambda>a. a \<in> set default_aisles) (map fst (sort_key aisle_key s))"
  let ?D = "filter (\<lambda>a. a \<in> fst ` set s) default_aisles"
  have dist_def: "distinct (map ?p default_aisles)"
    by (simp only: aisle_key_default_aisles distinct_upt)
  then have inj: "inj_on ?p (set default_aisles)" and dd: "distinct default_aisles"
    by (simp_all add: distinct_map)
  have sorted_all: "sorted (map ?p (map fst (sort_key aisle_key s)))"
    using sorted_sort_key [of aisle_key s] aisle_key_fst
    by (metis (no_types, lifting) map_eq_conv map_map o_apply)
  have sK: "sorted (map ?p ?K)" using sorted_all by (rule sorted_filter)
  have "sorted (map ?p default_aisles)" by (simp only: aisle_key_default_aisles sorted_upt)
  then have sD: "sorted (map ?p ?D)" by (rule sorted_filter)
  have dK: "distinct ?K" using assms wf_sort_key [of aisle_key s] by (simp add: wf_dict_def)
  have dD: "distinct ?D" using dd by simp
  have setKD: "set ?K = set ?D" by auto
  have injK: "inj_on ?p (set ?K)" and injD: "inj_on ?p (set ?D)"
    using inj by (auto intro: inj_on_subset)
  have "map ?p ?K = map ?p ?D"
  proof (rule sorted_distinct_set_unique)
    show "sorted (map ?p ?K)" by (rule sK)
    show "distinct (map ?p ?K)" using dK injK by (simp add: distinct_map)
    show "sorted (map ?p ?D)" by (rule sD)
    show "distinct (map ?p ?D)" using dD injD by (simp add: distinct_map)
    show "set (map ?p ?K) = set (map ?p ?D)" using setKD by simp
  qed
  moreover have "inj_on ?p (set ?K \<union> set ?D)" using inj by (auto intro: inj_on_subset)
  ultimately show ?thesis by (simp add: inj_on_map_eq_map)
qed

text \<open>
  Claim C6.  The sequencing step of \<open>organize_by_aisle\<close> is the function
  \<^const>\<open>sort_aisles\<close>.  On every state that is a dict it is idempotent; its result is
  sorted by the position of the aisle in \<open>default_aisles\<close>, so that the known aisles of
  the state stand in the order of \<open>default_aisles\<close>, followed by the unknown aisles in the
  order they had; and it only reorders: the pairs of aisle and item list are the same, and
  so is the list found under each aisle.
\<close>

theorem sort_aisles_properties:
  assumes wf: "wf_dict s"
  shows "sort_aisles (sort_aisles s) = sort_aisles s
   \<and> sorted (map aisle_key (sort_aisles s))
   \<and> filter (\<lambda>a. a \<in> set default_aisles) (map fst (sort_aisles s))
       = filter (\<lambda>a. a \<in> fst ` set s) default_aisles
   \<and> sort_aisles s = sort_aisles (filter (\<lambda>kv. fst kv \<in> set default_aisles) s)
                           @ filter (\<lambda>kv. fst kv \<notin> set default_aisles) s
   \<and> mset (sort_aisles s) = mset s
   \<and> map_of (sort_aisles s) = map_of s"
proof -
  have eq: "sort_aisles s = sort_key aisle_key s" using wf by (rule sort_aisles_wf)
  have wf': "wf_dict (sort_key aisle_key s)" using wf by (simp add: wf_sort_key)
  have wfk: "wf_dict (filter (\<lambda>kv. fst kv \<in> set default_aisles) s)"
    using wf by (simp add: wf_dict_def distinct_map_filter)
  have c1: "sort_aisles (sort_aisles s) = sort_aisles s"
    by (simp add: eq sort_aisles_wf [OF wf'] sort_key_id_if_sorted)
  have c2: "sorted (map aisle_key (sort_aisles s))" by (simp add: eq)
  have c3: "filter (\<lambda>a. a \<in> set default_aisles) (map fst (sort_aisles s))
       = filter (\<lambda>a. a \<in> fst ` set s) default_aisles"
    unfolding eq using wf by (rule known_aisles_in_canonical_order)
  have c4: "sort_aisles s = sort_aisles (filter (\<lambda>kv. fst kv \<in> set default_aisles) s)
                           @ filter (\<lambda>kv. fst kv \<notin> set default_aisles) s"
    unfolding eq sort_aisles_wf [OF wfk] by (rule sort_key_known_unknown)
  have c5: "mset (sort_aisles s) = mset s" by (simp add: eq)
  have c6: "map_of (sort_aisles s) = map_of s" unfolding eq using wf by (rule map_of_sort_key)
  from c1 c2 c3 c4 c5 c6 show ?thesis by blast
qed

theorem sort_aisles_properties_witness:
  "wf_dict [(''Zoo'', [ex_blank]), (''Frozen'', [ex_peas]), (''Attic'', []), (''Dairy'', [ex_milk])]
   \<and> sort_aisles [(''Zoo'', [ex_blank]), (''Frozen'', [ex_peas]), (''Attic'', []), (''Dairy'', [ex_milk])]
       = [(''Dairy'', [ex_milk]), (''Frozen'', [ex_peas]), (''Zoo'', [ex_blank]), (''Attic'', [])]
   \<and> sort_aisles (sort_aisles [(''Zoo'', [ex_blank]), (''Frozen'', [ex_peas]), (''Attic'', []), (''Dairy'', [ex_milk])])
       = [(''Dairy'', [ex_milk]), (''Frozen'', [ex_peas]), (''Zoo'', [ex_blank]), (''Attic'', [])]"
proof -
  let ?s = "[(''Zoo'', [ex_blank]), (''Frozen'', [ex_peas]), (''Attic'', []), (''Dairy'', [ex_milk])]"
  have wf: "wf_dict ?s" by (simp add: wf_dict_def)
  have v: "sort_aisles ?s = [(''Dairy'', [ex_milk]), (''Frozen'', [ex_peas]), (''Zoo'', [ex_blank]), (''Attic'', [])]"
    by (simp add: sort_aisles_def dict_of_def aisle_key_def default_aisles_def)
  from sort_aisles_properties [OF wf] have "sort_aisles (sort_aisles ?s) = sort_aisles ?s" by blast
  with wf v show ?thesis by simp
qed

subsection \<open>Incoming records without a name or an aisle\<close>

lemma str_field_SomeD: "str_field kwargs k = Some s \<Longrightarrow> k \<in> set (map fst kwargs)"
proof -
  assume "str_field kwargs k = Some s"
  then have "map_of kwargs k \<noteq> None" by (cases "map_of kwargs k") (simp_all add: str_field_def)
  then show ?thesis by (simp add: map_of_eq_None_iff)
qed

lemma GroceryItem_init_keys:
  assumes "GroceryItem_init kwargs = Inr g"
  shows "''name'' \<in> set (map fst kwargs) \<and> ''aisle'' \<in> set (map fst kwargs)"
proof -
  from assms obtain n a where "str_field kwargs ''name'' = Some n" "str_field kwargs ''aisle'' = Some a"
    by (auto simp: GroceryItem_init_def split: option.splits)
  then show ?thesis by (simp only: str_field_SomeD)
qed

lemma new_items_loop_keys:
  "new_items_loop uuids n elems = Inr gs \<Longrightarrow> JObj kwargs \<in> set elems \<Longrightarrow>
   ''name'' \<in> set (map fst kwargs) \<and> ''aisle'' \<in> set (map fst kwargs)"
proof (induction elems arbitrary: n gs)
  case Nil
  then show ?case by simp
next
  case (Cons item_data rest)
  from Cons.prems(1) obtain kw where kw: "item_data = JObj kw"
    by (cases item_data) simp_all
  let ?fresh = "''id'' \<notin> set (map fst kw)"
  let ?kw' = "if ?fresh then AList.update ''id'' (JStr (uuids n)) kw else kw"
  let ?n' = "if ?fresh then Suc n else n"
  from Cons.prems(1) kw obtain g gs' where g: "GroceryItem_init ?kw' = Inr g"
    and rest: "new_items_loop uuids ?n' rest = Inr gs'"
    by (auto simp: Let_def split: sum.splits if_splits)
  from GroceryItem_init_keys [OF g] have here:
    "''name'' \<in> set (map fst kw) \<and> ''aisle'' \<in> set (map fst kw)"
    by (auto simp: dom_update split: if_splits)
  show ?case
  proof (cases "JObj kwargs = item_data")
    case True
    then show ?thesis using here kw by simp
  next
    case False
    then have "JObj kwargs \<in> set rest" using Cons.prems(2) by auto
    then show ?thesis using Cons.IH [OF rest] by simp
  qed
qed

lemma new_items_loop_error:
  "new_items_loop uuids n elems = Inl e \<Longrightarrow> e = TypeError \<or> e = ValidationError"
proof (induction elems arbitrary: n)
  case Nil
  then show ?case by simp
next
  case (Cons item_data rest)
  show ?case
  proof (cases item_data)
    case (JObj kw)
    then show ?thesis using Cons.prems Cons.IH
      by (auto simp: Let_def split: sum.splits if_splits dest: GroceryItem_init_raises)
  qed (use Cons.prems in simp_all)
qed

lemma categorize_items_incomplete:
  assumes "py_getitem categorized_data ''items'' = Inr v"
    and "py_iter v = Inr elems"
    and "JObj kwargs \<in> set elems"
    and "''name'' \<notin> set (map fst kwargs) \<or> ''aisle'' \<notin> set (map fst kwargs)"
  shows "categorize_items lower ag uuids n categorized_data preserve_existing = Inl TypeError
       \<or> categorize_items lower ag uuids n categorized_data preserve_existing = Inl ValidationError"
proof (cases "new_items_loop uuids n elems")
  case (Inl e)
  then have "e = TypeError \<or> e = ValidationError" by (rule new_items_loop_error)
  then show ?thesis using assms(1,2) Inl by (auto simp: categorize_items_def)
next
  case (Inr gs)
  from new_items_loop_keys [OF Inr assms(3)] assms(4) show ?thesis by blast
qed

lemma organize_by_aisle_adds_new_name:
  assumes "wf_dict (current_items ag)" and "\<not> item_exists lower (current_items ag) item"
  shows "item \<in> set (all_items (current_items (organize_by_aisle lower ag [item] True)))"
proof -
  have "item \<in># mset (all_items (current_items (organize_by_aisle lower ag [item] True)))"
    using assms by (simp add: organize_by_aisle_single item_exists_all_items)
  then show ?thesis by simp
qed

text \<open>
  Claim C8, as the code has it.  No incoming record is dropped on its own.  When a record
  of the batch is a dict without the key \<open>name\<close> or without the key \<open>aisle\<close>,
  \<open>categorize_items\<close> raises (the validation error of the constructor, or a type error
  when another member of the batch is not a dict) and returns no item, so nothing of the
  batch reaches the merge.  The merge has no test of the name or the aisle: an item that
  is not taken as existing is in the result of merging it, whatever its name and aisle
  are.  \<open>lower\<close> is any function, Python's \<open>str.lower\<close> among them.
\<close>

theorem incomplete_record_fails_batch:
  "(py_getitem categorized_data ''items'' = Inr v \<and> py_iter v = Inr elems
      \<and> JObj kwargs \<in> set elems
      \<and> (''name'' \<notin> set (map fst kwargs) \<or> ''aisle'' \<notin> set (map fst kwargs))
     \<longrightarrow> categorize_items lower ag uuids n categorized_data preserve_existing = Inl TypeError
       \<or> categorize_items lower ag uuids n categorized_data preserve_existing = Inl ValidationError)
   \<and> (wf_dict (current_items ag) \<and> \<not> item_exists lower (current_items ag) item
     \<longrightarrow> item \<in> set (all_items (current_items (organize_by_aisle lower ag [item] True))))"
  using categorize_items_incomplete organize_by_aisle_adds_new_name by blast

text \<open>
  The claim as stated fails: a batch of a record without a name and a complete record
  \<open>Eggs\<close> raises, where \<open>Eggs\<close> alone is returned for the merge; and an item whose name
  and aisle are the empty string is merged, under the aisle with the empty name.
\<close>

theorem incomplete_record_counterexample:
  "categorize_items ascii_lower ex_agent ex_uuids 0
     (JObj [(''items'', JArr [JObj [(''aisle'', JStr ''Dairy'')],
                              JObj [(''name'', JStr ''Eggs''), (''aisle'', JStr ''Dairy'')]])]) True
     = Inl ValidationError
   \<and> categorize_items ascii_lower ex_agent ex_uuids 0
     (JObj [(''items'', JArr [JObj [(''name'', JStr ''Eggs''), (''aisle'', JStr ''Dairy'')]])]) True
     = Inr [\<lparr>id' = ''uuid-'', name = ''Eggs'', aisle = ''Dairy'', quantity = None,
              quantity_unit = None, checked = False\<rparr>]
   \<and> current_items (organize_by_aisle ascii_lower ex_agent [ex_blank] True)
       = [(''Dairy'', [ex_milk]), ([], [ex_blank])]"
proof -
  have a: "categorize_items ascii_lower ex_agent ex_uuids 0
     (JObj [(''items'', JArr [JObj [(''aisle'', JStr ''Dairy'')],
                              JObj [(''name'', JStr ''Eggs''), (''aisle'', JStr ''Dairy'')]])]) True
     = Inl ValidationError"
    by (simp add: categorize_items_def py_getitem_def py_iter_def GroceryItem_init_def
          str_field_def ex_uuids_def)
  have b: "categorize_items ascii_lower ex_agent ex_uuids 0
     (JObj [(''items'', JArr [JObj [(''name'', JStr ''Eggs''), (''aisle'', JStr ''Dairy'')]])]) True
     = Inr [\<lparr>id' = ''uuid-'', name = ''Eggs'', aisle = ''Dairy'', quantity = None,
              quantity_unit = None, checked = False\<rparr>]"
    by (simp add: categorize_items_def py_getitem_def py_iter_def GroceryItem_init_def
          str_field_def opt_str_field_def bool_field_def ex_uuids_def existing_names_def
          ex_agent_def ex_milk_def ascii_lower_def ascii_lower_char_def)
  have c: "current_items (organize_by_aisle ascii_lower ex_agent [ex_blank] True)
       = [(''Dairy'', [ex_milk]), ([], [ex_blank])]"
    by (simp add: ex_defs eval_defs)
  from a b c show ?thesis by simp
qed

theorem incomplete_record_fails_batch_witness:
  "py_getitem (JObj [(''items'', JArr [JObj [(''aisle'', JStr ''Dairy'')],
                        JObj [(''name'', JStr ''Eggs''), (''aisle'', JStr ''Dairy'')]])]) ''items''
     = Inr (JArr [JObj [(''aisle'', JStr ''Dairy'')],
                  JObj [(''name'', JStr ''Eggs''), (''aisle'', JStr ''Dairy'')]])
   \<and> py_iter (JArr [JObj [(''aisle'', JStr ''Dairy'')],
                  JObj [(''name'', JStr ''Eggs''), (''aisle'', JStr ''Dairy'')]])
     = Inr [JObj [(''aisle'', JStr ''Dairy'')],
            JObj [(''name'', JStr ''Eggs''), (''aisle'', JStr ''Dairy'')]]
   \<and> ''name'' \<notin> set (map fst [(''aisle'', JStr ''Dairy'')])
   \<and> (categorize_items ascii_lower ex_agent ex_uuids 0
        (JObj [(''items'', JArr [JObj [(''aisle'', JStr ''Dairy'')],
                        JObj [(''name'', JStr ''Eggs''), (''aisle'', JStr ''Dairy'')]])]) True
        = Inl TypeError
      \<or> categorize_items ascii_lower ex_agent ex_uuids 0
        (JObj [(''items'', JArr [JObj [(''aisle'', JStr ''Dairy'')],
                        JObj [(''name'', JStr ''Eggs''), (''aisle'', JStr ''Dairy'')]])]) True
        = Inl ValidationError)
   \<and> wf_dict (current_items ex_agent)
   \<and> \<not> item_exists ascii_lower (current_items ex_agent) ex_blank
   \<and> ex_blank \<in> set (all_items (current_items (organize_by_aisle ascii_lower ex_agent [ex_blank] True)))"
proof -
  let ?kw = "[(''aisle'', JStr ''Dairy'')]"
  let ?elems = "[JObj ?kw, JObj [(''name'', JStr ''Eggs''), (''aisle'', JStr ''Dairy'')]]"
  have g: "py_getitem (JObj [(''items'', JArr ?elems)]) ''items'' = Inr (JArr ?elems)"
    by (simp add: py_getitem_def)
  have i: "py_iter (JArr ?elems) = Inr ?elems"
    by (simp add: py_iter_def)
  have m: "JObj ?kw \<in> set ?elems" by simp
  have k: "''name'' \<notin> set (map fst ?kw)" by simp
  have wf: "wf_dict (current_items ex_agent)"
    by (simp add: ex_agent_def wf_dict_def)
  have no: "\<not> item_exists ascii_lower (current_items ex_agent) ex_blank"
    by (simp add: ex_defs item_exists_def ascii_lower_def ascii_lower_char_def)
  from incomplete_record_fails_batch
         [where categorized_data = "JObj [(''items'', JArr ?elems)]" and v = "JArr ?elems"
            and elems = ?elems and kwargs = ?kw and ag = ex_agent and uuids = ex_uuids and n = 0
            and preserve_existing = True and item = ex_blank and lower = ascii_lower]
       g i m k wf no
  show ?thesis by blast
qed

end
